theory Spec2Isabelle
  imports Main "HOL-Library.List_Lexorder" "HOL-Library.Multiset"
begin

section \<open>Strings of the script\<close>

text \<open>
  The script \<^verbatim>\<open>DisassemblerScripts/ida_dump_xrefs.py\<close> works on Python \<^verbatim>\<open>str\<close>
  values, which are sequences of Unicode code points. A code point is a natural
  number here, a string a list of them; \<open>ustr\<close> reads a literal.
  The order on strings is Python's: lexicographic by code point, a proper prefix first.
\<close>

type_synonym codepoint = nat
type_synonym pystr = "codepoint list"

definition ustr :: "string \<Rightarrow> pystr" where
  "ustr cs = map of_char cs"

text \<open>\<^verbatim>\<open>s.startswith(p)\<close>\<close>

definition startswith :: "pystr \<Rightarrow> pystr \<Rightarrow> bool" where
  "startswith s p = (take (length p) s = p)"

text \<open>
  \<^verbatim>\<open>s.find(sub)\<close>: the lowest index at which \<open>sub\<close> occurs, \<open>-1\<close> when it
  does not occur. \<^verbatim>\<open>s.rfind(sub)\<close>: the highest such index, or \<open>-1\<close>.
  Both scan the string from the left, \<open>i\<close> being the index of the position reached;
  \<open>rfind_from\<close> carries the last index found so far.
\<close>

fun find_from :: "pystr \<Rightarrow> pystr \<Rightarrow> int \<Rightarrow> int" where
  "find_from [] sub i = (if sub = [] then i else -1)"
| "find_from (c # cs) sub i =
     (if startswith (c # cs) sub then i else find_from cs sub (i + 1))"

definition py_find :: "pystr \<Rightarrow> pystr \<Rightarrow> int" where
  "py_find s sub = find_from s sub 0"

fun rfind_from :: "pystr \<Rightarrow> pystr \<Rightarrow> int \<Rightarrow> int \<Rightarrow> int" where
  "rfind_from [] sub i found = (if sub = [] then i else found)"
| "rfind_from (c # cs) sub i found =
     rfind_from cs sub (i + 1) (if startswith (c # cs) sub then i else found)"

definition py_rfind :: "pystr \<Rightarrow> pystr \<Rightarrow> int" where
  "py_rfind s sub = rfind_from s sub 0 (-1)"

text \<open>\<^verbatim>\<open>sub in s\<close>\<close>

definition contains :: "pystr \<Rightarrow> pystr \<Rightarrow> bool" where
  "contains s sub = (py_find s sub \<noteq> -1)"

text \<open>
  The slices \<^verbatim>\<open>s[:i]\<close> and \<^verbatim>\<open>s[i:]\<close>. A negative index counts from the end, and an
  index out of range is clamped: a slice never raises.
\<close>

definition slice_to :: "pystr \<Rightarrow> int \<Rightarrow> pystr" where
  "slice_to s i = (if i < 0 then take (nat (int (length s) + i)) s else take (nat i) s)"

definition slice_from :: "pystr \<Rightarrow> int \<Rightarrow> pystr" where
  "slice_from s i = (if i < 0 then drop (nat (int (length s) + i)) s else drop (nat i) s)"

section \<open>The regular expressions\<close>

text \<open>
  The class \<^verbatim>\<open>\s\<close> of a \<^verbatim>\<open>str\<close> pattern: the Unicode whitespace characters, which are
  tab to carriage return, the four separators U+001C to U+001F, the space, U+0085, U+00A0,
  U+1680, U+2000 to U+200A, U+2028, U+2029, U+202F, U+205F and U+3000.
\<close>

definition is_space :: "codepoint \<Rightarrow> bool" where
  "is_space c =
     ((9 \<le> c \<and> c \<le> 13) \<or> (28 \<le> c \<and> c \<le> 32) \<or> c = 133 \<or> c = 160 \<or> c = 5760
      \<or> (8192 \<le> c \<and> c \<le> 8202) \<or> c = 8232 \<or> c = 8233 \<or> c = 8239 \<or> c = 8287
      \<or> c = 12288)"

text \<open>
  \<^verbatim>\<open>.*lit\<close> matched at the start of a string: \<^verbatim>\<open>.\<close> is any character but the
  line feed (code point 10), so the literal has to start before the first line feed.
\<close>

fun dot_star_then :: "pystr \<Rightarrow> pystr \<Rightarrow> bool" where
  "dot_star_then lit [] = (lit = [])"
| "dot_star_then lit (c # cs) =
     (startswith (c # cs) lit \<or> (c \<noteq> 10 \<and> dot_star_then lit cs))"

text \<open>\<^verbatim>\<open>re.search(r'TryGet.*Array', name)\<close>, as a truth value.\<close>

fun re_search_TryGet_Array :: "pystr \<Rightarrow> bool" where
  "re_search_TryGet_Array [] = False"
| "re_search_TryGet_Array (c # cs) =
     ((startswith (c # cs) (ustr ''TryGet'') \<and> dot_star_then (ustr ''Array'') (drop 6 (c # cs)))
      \<or> re_search_TryGet_Array cs)"

text \<open>\<^verbatim>\<open>name.replace("&", "[]&")\<close>: the ampersand is code point 38.\<close>

fun replace_amp :: "pystr \<Rightarrow> pystr" where
  "replace_amp [] = []"
| "replace_amp (c # cs) = (if c = 38 then ustr ''[]&'' else [c]) @ replace_amp cs"

text \<open>
  \<^verbatim>\<open>re.sub(r'\s+', '', name)\<close>: every maximal run of whitespace is replaced by the
  empty string.
\<close>

function re_sub_spaces :: "pystr \<Rightarrow> pystr" where
  "re_sub_spaces [] = []"
| "re_sub_spaces (c # cs) =
     (if is_space c then [] @ re_sub_spaces (dropWhile is_space cs)
      else c # re_sub_spaces cs)"
  by pat_completeness auto
termination
  by (relation "measure length") (auto simp: length_dropWhile_le less_Suc_eq_le)

section \<open>The normalizer\<close>

text \<open>
  \<^verbatim>\<open>clean_demangled\<close>, statement by statement: the truncation at the last space
  before the first \<^verbatim>\<open>::\<close>, the array marker, the removal of whitespace.
\<close>

definition truncate_prefix :: "pystr \<Rightarrow> pystr" where
  "truncate_prefix name =
     (let first_colon = py_find name (ustr ''::'')
      in if first_colon \<noteq> -1 then
           (let prefix = slice_to name first_colon;
                last_space = py_rfind prefix (ustr '' '')
            in if last_space \<noteq> -1 then slice_from name (last_space + 1) else name)
         else name)"

definition mark_array :: "pystr \<Rightarrow> pystr" where
  "mark_array name = (if re_search_TryGet_Array name then replace_amp name else name)"

definition clean_demangled :: "pystr \<Rightarrow> pystr" where
  "clean_demangled name = re_sub_spaces (mark_array (truncate_prefix name))"

section \<open>The filter on target names\<close>

text \<open>
  The two tuples of the script: the namespaces a reported function must not start with,
  and the markers it must not contain.
\<close>

definition skipped_namespaces :: "pystr list" where
  "skipped_namespaces =
     [ustr ''UnityEngine::'', ustr ''Unity::'', ustr ''UnityEngineInternal::'',
      ustr ''Microsoft::VisualBasic'', ustr ''System::'', ustr ''Mono::'',
      ustr ''MS::Internal'', ustr ''Microsoft::Win32'', ustr ''Interop::'',
      ustr ''Epic::'', ustr ''Sentry::'', ustr ''Steamworks::'', ustr ''Newtonsoft::Json:'',
      ustr ''TMPro::'', ustr ''Epic::OnlineServices'', ustr ''PolyfillExtensions::'',
      ustr ''Microsoft::CSharp'', ustr ''Internal::'', ustr ''Interop_SspiCli::'',
      ustr ''std::'', ustr ''namespace'::'']"

definition skipped_markers :: "pystr list" where
  "skipped_markers =
     [ustr ''__fastcall'', ustr ''__cdecl'', ustr ''__crt'', ustr ''stdcall'',
      ustr ''_lambda_'', ustr ''_expandlocale_'']"

text \<open>
  \<^verbatim>\<open>any(demangled.startswith(p) for p in (...))\<close> and
  \<^verbatim>\<open>any(p in demangled for p in (...))\<close>; a name is reported when neither holds.
\<close>

definition in_skipped_namespace :: "pystr \<Rightarrow> bool" where
  "in_skipped_namespace demangled = list_ex (\<lambda>p. startswith demangled p) skipped_namespaces"

definition has_skipped_marker :: "pystr \<Rightarrow> bool" where
  "has_skipped_marker demangled = list_ex (\<lambda>p. contains demangled p) skipped_markers"

definition is_application_code :: "pystr \<Rightarrow> bool" where
  "is_application_code demangled =
     (\<not> in_skipped_namespace demangled \<and> \<not> has_skipped_marker demangled)"

section \<open>The analysis engine\<close>

text \<open>
  The script queries IDA. Each query either returns or raises, so the database is a
  record of functions into \<open>exn + _\<close>, with \<open>Inl\<close> what was raised. The handler of
  the script is \<^verbatim>\<open>except Exception\<close>: \<open>Exception m\<close> is a raise it catches, an
  instance of \<^verbatim>\<open>Exception\<close> with message \<open>m\<close>; \<open>BaseException m\<close> is any other
  raise (\<^verbatim>\<open>KeyboardInterrupt\<close>, \<^verbatim>\<open>SystemExit\<close>), which it does not catch.
  An address is an integer; a name the engine returns is a string or Python's \<^verbatim>\<open>None\<close>.
  \<^item> \<open>Functions\<close>: the addresses \<^verbatim>\<open>Functions()\<close> enumerates;
  \<^item> \<open>is_code ea\<close>: \<^verbatim>\<open>ida_bytes.is_code(ida_bytes.get_full_flags(ea))\<close>;
  \<^item> \<open>get_name ea\<close>: \<^verbatim>\<open>get_name(ea)\<close>;
  \<^item> \<open>demangle_name n\<close>: \<^verbatim>\<open>demangle_name(n, DEMANGLER)\<close>;
  \<^item> \<open>XrefsTo ea\<close>: the origins \<^verbatim>\<open>xref.frm\<close> of \<^verbatim>\<open>XrefsTo(ea, 0)\<close>, in order;
  \<^item> \<open>get_func_name ea\<close>: \<^verbatim>\<open>get_func_name(ea)\<close>.
\<close>

type_synonym ea = int

datatype exn = Exception pystr | BaseException pystr

record engine =
  Functions :: "ea list"
  is_code :: "ea \<Rightarrow> exn + bool"
  get_name :: "ea \<Rightarrow> exn + pystr option"
  demangle_name :: "pystr option \<Rightarrow> exn + pystr option"
  XrefsTo :: "ea \<Rightarrow> exn + ea list"
  get_func_name :: "ea \<Rightarrow> exn + pystr option"

text \<open>Python's truth value of a string or \<^verbatim>\<open>None\<close>.\<close>

fun truthy :: "pystr option \<Rightarrow> bool" where
  "truthy None = False"
| "truthy (Some s) = (s \<noteq> [])"

section \<open>The loop over the functions\<close>

record call_record =
  CallCount :: int
  Usages :: "pystr list"

text \<open>
  The inner loop over the references to one function: a reference from code whose
  function name demangles to a non-empty string appends the cleaned name to \<open>callers\<close>.
\<close>

fun collect_callers :: "engine \<Rightarrow> ea list \<Rightarrow> pystr list \<Rightarrow> exn + pystr list" where
  "collect_callers db [] callers = Inr callers"
| "collect_callers db (frm # xrefs) callers =
     (case is_code db frm of
        Inl e \<Rightarrow> Inl e
      | Inr code \<Rightarrow>
          if code then
            (case get_func_name db frm of
               Inl e \<Rightarrow> Inl e
             | Inr caller_name \<Rightarrow>
                 (case demangle_name db caller_name of
                    Inl e \<Rightarrow> Inl e
                  | Inr caller_demangled \<Rightarrow>
                      if truthy caller_demangled
                      then collect_callers db xrefs
                             (callers @ [clean_demangled (the caller_demangled)])
                      else collect_callers db xrefs callers))
          else collect_callers db xrefs callers)"

text \<open>
  The references to a function, then the inner loop from the empty list.
\<close>

definition callers_of :: "engine \<Rightarrow> ea \<Rightarrow> exn + pystr list" where
  "callers_of db func_ea =
     (case XrefsTo db func_ea of
        Inl e \<Rightarrow> Inl e
      | Inr xrefs \<Rightarrow> collect_callers db xrefs [])"

text \<open>
  The body of the \<^verbatim>\<open>try\<close> for one function: \<open>Inl e\<close> when an exception escapes it,
  \<open>Inr None\<close> when it ends in a \<^verbatim>\<open>continue\<close>, \<open>Inr (Some (name, record))\<close> when it
  reaches the assignment to \<^verbatim>\<open>xref_data[demangled]\<close>.
\<close>

definition process_function :: "engine \<Rightarrow> ea \<Rightarrow> exn + (pystr \<times> call_record) option" where
  "process_function db func_ea =
     (case is_code db func_ea of
        Inl e \<Rightarrow> Inl e
      | Inr code \<Rightarrow>
          if \<not> code then Inr None
          else
            (case get_name db func_ea of
               Inl e \<Rightarrow> Inl e
             | Inr mangled_name \<Rightarrow>
                 if \<not> truthy mangled_name \<or> contains (the mangled_name) (ustr ''::'')
                 then Inr None
                 else
                   (case demangle_name db mangled_name of
                      Inl e \<Rightarrow> Inl e
                    | Inr None \<Rightarrow> Inr None
                    | Inr (Some raw) \<Rightarrow>
                        (let demangled = clean_demangled raw
                         in case callers_of db func_ea of
                              Inl e \<Rightarrow> Inl e
                            | Inr callers \<Rightarrow>
                                if in_skipped_namespace demangled then Inr None
                                else if has_skipped_marker demangled then Inr None
                                else Inr (Some (demangled,
                                       \<lparr>CallCount = int (length callers),
                                        Usages = sort callers\<rparr>))))))"

text \<open>
  The state of the run: the dictionary \<^verbatim>\<open>xref_data\<close>, the lines printed by the
  exception handler, each the address of the function and the exception, and the raise
  that ended the run, if one passed the handler. A run ended that way writes no output.
\<close>

record run_state =
  xref_data :: "pystr \<rightharpoonup> call_record"
  printed :: "(ea \<times> exn) list"
  uncaught :: "exn option"

definition step :: "engine \<Rightarrow> run_state \<Rightarrow> ea \<Rightarrow> run_state" where
  "step db st func_ea =
     (case process_function db func_ea of
        Inl (Exception m) \<Rightarrow> st\<lparr>printed := printed st @ [(func_ea, Exception m)]\<rparr>
      | Inl (BaseException m) \<Rightarrow> st\<lparr>uncaught := Some (BaseException m)\<rparr>
      | Inr None \<Rightarrow> st
      | Inr (Some (name, r)) \<Rightarrow> st\<lparr>xref_data := (xref_data st)(name \<mapsto> r)\<rparr>)"

fun main_loop :: "engine \<Rightarrow> ea list \<Rightarrow> run_state \<Rightarrow> run_state" where
  "main_loop db [] st = st"
| "main_loop db (func_ea # rest) st =
     (let st' = step db st func_ea
      in if uncaught st' = None then main_loop db rest st' else st')"

definition run :: "engine \<Rightarrow> run_state" where
  "run db =
     main_loop db (Functions db) \<lparr>xref_data = Map.empty, printed = [], uncaught = None\<rparr>"

section \<open>Three databases\<close>

text \<open>
  A database with the three functions of the end-to-end scenario and one whose name
  cannot be read. \<open>A\<close> at 4096 is \<^verbatim>\<open>void Game::A(void)\<close>, called from 8208 inside
  \<open>B\<close> and from 12304 inside \<open>C\<close>; \<open>B\<close> at 8192 is \<^verbatim>\<open>void Game::B(void)\<close>, referred
  to only from data at 20480; \<open>C\<close> at 12288 is \<^verbatim>\<open>void System::Foo(void)\<close>;
  \<^verbatim>\<open>get_name\<close> raises an exception at 16384.
\<close>

definition scenario_db :: engine where
  "scenario_db =
     \<lparr>Functions = [4096, 16384, 8192, 12288],
      is_code = (\<lambda>ea. Inr (ea \<in> {4096, 8192, 12288, 16384, 8208, 12304})),
      get_name = (\<lambda>ea. if ea = 4096 then Inr (Some (ustr ''mA''))
                        else if ea = 8192 then Inr (Some (ustr ''mB''))
                        else if ea = 12288 then Inr (Some (ustr ''mC''))
                        else if ea = 16384 then Inl (Exception (ustr ''bad name''))
                        else Inr None),
      demangle_name = (\<lambda>n. if n = Some (ustr ''mA'') then Inr (Some (ustr ''void Game::A(void)''))
                        else if n = Some (ustr ''mB'') then Inr (Some (ustr ''void Game::B(void)''))
                        else if n = Some (ustr ''mC'') then Inr (Some (ustr ''void System::Foo(void)''))
                        else Inr None),
      XrefsTo = (\<lambda>ea. if ea = 4096 then Inr [12304, 8208]
                       else if ea = 8192 then Inr [20480]
                       else Inr []),
      get_func_name = (\<lambda>ea. if ea = 8208 then Inr (Some (ustr ''mB''))
                        else if ea = 12304 then Inr (Some (ustr ''mC''))
                        else Inr None)\<rparr>"

text \<open>
  A database with two functions that are normalized to the same name: the one at 1 has
  no reference to it, the one at 2 is called from 3 and 4 inside \<^verbatim>\<open>void Game::G()\<close>
  and from 5 inside \<^verbatim>\<open>void Game::E()\<close>.
\<close>

definition collision_db :: engine where
  "collision_db =
     \<lparr>Functions = [1, 2],
      is_code = (\<lambda>ea. Inr True),
      get_name = (\<lambda>ea. if ea = 1 then Inr (Some (ustr ''mF1''))
                        else if ea = 2 then Inr (Some (ustr ''mF2''))
                        else Inr None),
      demangle_name = (\<lambda>n. if n = Some (ustr ''mF1'') then Inr (Some (ustr ''void Game::F()''))
                        else if n = Some (ustr ''mF2'') then Inr (Some (ustr ''int Game::F()''))
                        else if n = Some (ustr ''mG'') then Inr (Some (ustr ''void Game::G()''))
                        else if n = Some (ustr ''mE'') then Inr (Some (ustr ''void Game::E()''))
                        else Inr None),
      XrefsTo = (\<lambda>ea. if ea = 2 then Inr [3, 5, 4] else Inr []),
      get_func_name = (\<lambda>ea. if ea = 3 \<or> ea = 4 then Inr (Some (ustr ''mG''))
                        else if ea = 5 then Inr (Some (ustr ''mE''))
                        else Inr None)\<rparr>"

text \<open>
  A database whose first function cannot be read because the run is interrupted there;
  the second is \<^verbatim>\<open>void Game::H()\<close>, which nothing calls.
\<close>

definition interrupted_db :: engine where
  "interrupted_db =
     \<lparr>Functions = [1, 2],
      is_code = (\<lambda>ea. Inr True),
      get_name = (\<lambda>ea. if ea = 1 then Inl (BaseException (ustr ''KeyboardInterrupt''))
                        else if ea = 2 then Inr (Some (ustr ''mH''))
                        else Inr None),
      demangle_name = (\<lambda>n. if n = Some (ustr ''mH'') then Inr (Some (ustr ''void Game::H()''))
                        else Inr None),
      XrefsTo = (\<lambda>ea. Inr []),
      get_func_name = (\<lambda>ea. Inr None)\<rparr>"

section \<open>Facts about the string operations\<close>

lemma filter_dropWhile_neg: "filter (\<lambda>c. \<not> P c) (dropWhile P cs) = filter (\<lambda>c. \<not> P c) cs"
  by (induction cs) auto

lemma re_sub_spaces_filter: "re_sub_spaces s = filter (\<lambda>c. \<not> is_space c) s"
  by (induction s rule: re_sub_spaces.induct) (simp_all add: filter_dropWhile_neg)

lemma startswith_single: "startswith (x # xs) [c] = (x = c)"
  by (simp add: startswith_def)

lemma rfind_from_absent: "c \<notin> set s \<Longrightarrow> rfind_from s [c] i found = found"
  by (induction s arbitrary: i found) (auto simp: startswith_single)

lemma rfind_from_last:
  "c \<notin> set q \<Longrightarrow> rfind_from (p @ [c] @ q) [c] i found = i + int (length p)"
  by (induction p arbitrary: i found) (auto simp: startswith_single rfind_from_absent)


lemma startswith_length: "startswith s p \<Longrightarrow> length p \<le> length s"
proof -
  assume "startswith s p"
  then have "length (take (length p) s) = length p"
    by (simp only: startswith_def)
  then show ?thesis by simp
qed

lemma find_from_range:
  "0 \<le> i \<Longrightarrow> find_from s sub i = -1 \<or> (i \<le> find_from s sub i \<and> find_from s sub i + int (length sub) \<le> i + int (length s))"
proof (induction s arbitrary: i)
  case Nil
  then show ?case by simp
next
  case (Cons c cs)
  show ?case
  proof (cases "startswith (c # cs) sub")
    case True
    from startswith_length [OF True] have "int (length sub) \<le> int (length (c # cs))"
      by (simp only: of_nat_le_iff)
    with True show ?thesis by simp
  next
    case False
    from Cons.prems have "0 \<le> i + 1" by simp
    from Cons.IH [OF this] False show ?thesis by (simp, linarith)
  qed
qed


lemma py_find_range:
  "py_find s sub = -1 \<or> (0 \<le> py_find s sub \<and> py_find s sub + int (length sub) \<le> int (length s))"
  using find_from_range [of 0 s sub] by (simp add: py_find_def)

lemma py_rfind_absent: "c \<notin> set s \<Longrightarrow> py_rfind s [c] = -1"
  by (simp add: py_rfind_def rfind_from_absent)

lemma py_rfind_last: "c \<notin> set q \<Longrightarrow> py_rfind (p @ [c] @ q) [c] = int (length p)"
  using rfind_from_last [of c q p 0 "-1"] by (simp add: py_rfind_def)

lemma py_rfind_range:
  "py_rfind s [c] = -1 \<or> (0 \<le> py_rfind s [c] \<and> py_rfind s [c] < int (length s))"
proof (cases "c \<in> set s")
  case False
  then show ?thesis by (simp add: py_rfind_absent)
next
  case True
  then obtain p q where s: "s = p @ c # q" and q: "c \<notin> set q"
    by (meson split_list_last)
  from py_rfind_last [OF q, of p] s show ?thesis by simp
qed

text \<open>The index \<^verbatim>\<open>find\<close> returns is the one of the first occurrence.\<close>

lemma find_from_first:
  "0 \<le> i \<Longrightarrow> find_from s sub i \<noteq> -1 \<Longrightarrow>
     startswith (drop (nat (find_from s sub i - i)) s) sub
     \<and> (\<forall>j < nat (find_from s sub i - i). \<not> startswith (drop j s) sub)"
proof (induction s arbitrary: i)
  case Nil
  then show ?case by (simp add: startswith_def split: if_splits)
next
  case (Cons c cs)
  show ?case
  proof (cases "startswith (c # cs) sub")
    case True
    then show ?thesis by simp
  next
    case False
    from Cons.prems have i: "0 \<le> i + 1" by simp
    from Cons.prems False have r: "find_from cs sub (i + 1) \<noteq> -1" by simp
    from find_from_range [OF i, of cs sub] r have "i + 1 \<le> find_from cs sub (i + 1)"
      by blast
    then have k: "nat (find_from cs sub (i + 1) - i) = Suc (nat (find_from cs sub (i + 1) - (i + 1)))"
      by linarith
    from Cons.IH [OF i r]
    have a: "startswith (drop (nat (find_from cs sub (i + 1) - (i + 1))) cs) sub"
      and b: "\<forall>j < nat (find_from cs sub (i + 1) - (i + 1)). \<not> startswith (drop j cs) sub"
      by blast+
    have "\<not> startswith (drop j (c # cs)) sub"
      if "j < Suc (nat (find_from cs sub (i + 1) - (i + 1)))" for j
    proof (cases j)
      case 0
      with False show ?thesis by simp
    next
      case (Suc j')
      with that b show ?thesis by simp
    qed
    with a False k show ?thesis by simp
  qed
qed

lemma py_find_first:
  assumes "py_find s sub \<noteq> -1"
  shows "startswith (slice_from s (py_find s sub)) sub
         \<and> (\<forall>j < nat (py_find s sub). \<not> startswith (drop j s) sub)"
proof -
  from assms py_find_range [of s sub] have "0 \<le> py_find s sub" by blast
  then have "slice_from s (py_find s sub) = drop (nat (py_find s sub)) s"
    by (simp add: slice_from_def)
  with find_from_first [of 0 s sub] assms show ?thesis
    by (simp add: py_find_def)
qed

lemma space_literal: "ustr '' '' = [32]"
  by (simp add: ustr_def)

lemma truncate_prefix_no_space: "32 \<notin> set s \<Longrightarrow> truncate_prefix s = s"
proof -
  assume a: "32 \<notin> set s"
  have "32 \<notin> set (slice_to s i)" for i
    using a by (auto simp: slice_to_def dest: in_set_takeD)
  then have "py_rfind (slice_to s i) [32] = -1" for i
    by (rule py_rfind_absent)
  then show ?thesis
    by (simp add: truncate_prefix_def Let_def space_literal)
qed

lemma replace_amp_absent: "38 \<notin> set s \<Longrightarrow> replace_amp s = s"
  by (induction s) auto

lemma length_replace_amp: "length (replace_amp s) = length s + 2 * length (filter (\<lambda>c. c = 38) s)"
  by (induction s) (simp_all add: ustr_def)

lemma replace_amp_fixed: "replace_amp s = s \<longleftrightarrow> 38 \<notin> set s"
proof
  assume "replace_amp s = s"
  then have "length (replace_amp s) = length s" by simp
  then have "filter (\<lambda>c. c = 38) s = []"
    by (simp add: length_replace_amp)
  then show "38 \<notin> set s"
    by (auto simp: filter_empty_conv)
next
  assume "38 \<notin> set s"
  then show "replace_amp s = s" by (rule replace_amp_absent)
qed

lemma marker_not_space: "\<not> is_space 91" "\<not> is_space 93" "\<not> is_space 38"
  by (simp_all add: is_space_def)

lemma marker_literal: "ustr ''[]&'' = [91, 93, 38]"
  by (simp add: ustr_def)

lemma replace_amp_space: "\<forall>c\<in>set s. \<not> is_space c \<Longrightarrow> \<forall>c\<in>set (replace_amp s). \<not> is_space c"
  by (induction s) (simp_all add: marker_literal marker_not_space)

lemma space_is_space: "is_space 32"
  by (simp add: is_space_def)

lemma clean_demangled_no_space: "c \<in> set (clean_demangled s) \<Longrightarrow> \<not> is_space c"
  by (simp add: clean_demangled_def re_sub_spaces_filter)

lemma re_sub_spaces_id: "\<forall>c\<in>set s. \<not> is_space c \<Longrightarrow> re_sub_spaces s = s"
  by (simp add: re_sub_spaces_filter)

lemma clean_demangled_canonical:
  assumes "\<forall>c\<in>set t. \<not> is_space c"
  shows "clean_demangled t = (if re_search_TryGet_Array t then replace_amp t else t)"
proof -
  from assms space_is_space have "32 \<notin> set t" by blast
  then have t: "truncate_prefix t = t" by (rule truncate_prefix_no_space)
  show ?thesis
    using assms replace_amp_space [OF assms]
    by (simp add: clean_demangled_def t mark_array_def re_sub_spaces_id)
qed

lemma startswith_append: "startswith (p @ v) p"
  by (simp add: startswith_def)

lemma startswith_split: "startswith s p \<Longrightarrow> s = p @ drop (length p) s"
proof -
  assume "startswith s p"
  then have "take (length p) s = p" by (simp only: startswith_def)
  then have "take (length p) s @ drop (length p) s = p @ drop (length p) s" by (simp only:)
  then show ?thesis by (simp only: append_take_drop_id)
qed

lemma dot_star_then_intro: "10 \<notin> set m \<Longrightarrow> dot_star_then lit (m @ lit @ v)"
proof (induction m)
  case Nil
  show ?case
  proof (cases "lit @ v")
    case Nil
    then show ?thesis by simp
  next
    case (Cons c cs)
    have "startswith (lit @ v) lit" by (rule startswith_append)
    with Cons show ?thesis by simp
  qed
next
  case (Cons c m)
  then show ?case by simp
qed

lemma dot_star_then_elim: "dot_star_then lit s \<Longrightarrow> \<exists>m v. s = m @ lit @ v \<and> 10 \<notin> set m"
proof (induction s)
  case Nil
  then show ?case by simp
next
  case (Cons c cs)
  show ?case
  proof (cases "startswith (c # cs) lit")
    case True
    from startswith_split [OF True]
    have "c # cs = [] @ lit @ drop (length lit) (c # cs) \<and> 10 \<notin> set ([] :: pystr)"
      by simp
    then show ?thesis by blast
  next
    case False
    with Cons.prems have c: "c \<noteq> 10" and d: "dot_star_then lit cs" by simp_all
    from Cons.IH [OF d] obtain m v where cs: "cs = m @ lit @ v" and m: "10 \<notin> set m"
      by blast
    from cs have "c # cs = (c # m) @ lit @ v" by simp
    moreover from c m have "10 \<notin> set (c # m)" by simp
    ultimately show ?thesis by blast
  qed
qed

lemma length_TryGet: "length (ustr ''TryGet'') = 6"
  by (simp add: ustr_def)

lemma re_search_intro:
  "dot_star_then (ustr ''Array'') rest \<Longrightarrow> re_search_TryGet_Array (u @ ustr ''TryGet'' @ rest)"
proof (induction u)
  case Nil
  have "ustr ''TryGet'' @ rest \<noteq> []"
    by (simp add: ustr_def)
  then obtain c cs where cs: "ustr ''TryGet'' @ rest = c # cs"
    by (auto simp only: neq_Nil_conv)
  have sw: "startswith (ustr ''TryGet'' @ rest) (ustr ''TryGet'')"
    by (rule startswith_append)
  have dr: "drop 6 (ustr ''TryGet'' @ rest) = rest"
    by (simp add: length_TryGet)
  from sw dr Nil.prems
  have "startswith (c # cs) (ustr ''TryGet'') \<and> dot_star_then (ustr ''Array'') (drop 6 (c # cs))"
    by (simp only: cs)
  then have "re_search_TryGet_Array (c # cs)"
    by (simp only: re_search_TryGet_Array.simps simp_thms)
  then show ?case by (simp only: append_Nil cs)
next
  case (Cons c u)
  then show ?case by simp
qed

lemma re_search_elim:
  "re_search_TryGet_Array s \<Longrightarrow> \<exists>u rest. s = u @ ustr ''TryGet'' @ rest \<and> dot_star_then (ustr ''Array'') rest"
proof (induction s)
  case Nil
  then show ?case by simp
next
  case (Cons c cs)
  show ?case
  proof (cases "startswith (c # cs) (ustr ''TryGet'') \<and> dot_star_then (ustr ''Array'') (drop 6 (c # cs))")
    case True
    then have sw: "startswith (c # cs) (ustr ''TryGet'')" by (simp only:)
    from startswith_split [OF sw] have "c # cs = [] @ ustr ''TryGet'' @ drop 6 (c # cs)"
      by (simp only: length_TryGet append_Nil)
    with True show ?thesis by blast
  next
    case False
    with Cons.prems have "re_search_TryGet_Array cs"
      by (simp only: re_search_TryGet_Array.simps simp_thms)
    from Cons.IH [OF this] obtain u rest where "cs = u @ ustr ''TryGet'' @ rest"
      and r: "dot_star_then (ustr ''Array'') rest" by blast
    then have "c # cs = (c # u) @ ustr ''TryGet'' @ rest" by simp
    with r show ?thesis by blast
  qed
qed

lemma re_search_iff:
  "re_search_TryGet_Array s \<longleftrightarrow>
     (\<exists>u m v. s = u @ ustr ''TryGet'' @ m @ ustr ''Array'' @ v \<and> 10 \<notin> set m)"
proof
  assume "re_search_TryGet_Array s"
  from re_search_elim [OF this] obtain u rest where s: "s = u @ ustr ''TryGet'' @ rest"
    and r: "dot_star_then (ustr ''Array'') rest" by blast
  from dot_star_then_elim [OF r] obtain m v where "rest = m @ ustr ''Array'' @ v" and "10 \<notin> set m"
    by blast
  with s show "\<exists>u m v. s = u @ ustr ''TryGet'' @ m @ ustr ''Array'' @ v \<and> 10 \<notin> set m"
    by blast
next
  assume "\<exists>u m v. s = u @ ustr ''TryGet'' @ m @ ustr ''Array'' @ v \<and> 10 \<notin> set m"
  then obtain u m v where s: "s = u @ ustr ''TryGet'' @ m @ ustr ''Array'' @ v" and m: "10 \<notin> set m"
    by blast
  from re_search_intro [OF dot_star_then_intro [OF m]] s show "re_search_TryGet_Array s"
    by simp
qed

section \<open>The normalizer: claims C2, C3, C4, C7 and C9\<close>

lemmas eval_defs = clean_demangled_def truncate_prefix_def mark_array_def ustr_def startswith_def
  slice_to_def slice_from_def is_space_def py_find_def py_rfind_def

lemma replace_amp_concat:
  "replace_amp s = concat (map (\<lambda>c. if c = 38 then ustr ''[]&'' else [c]) s)"
  by (induction s) simp_all

lemma length_colons: "length (ustr ''::'') = 2"
  by (simp add: ustr_def)

lemma length_Array: "length (ustr ''Array'') = 5"
  by (simp add: ustr_def)

lemma re_search_length: "re_search_TryGet_Array s \<Longrightarrow> 11 \<le> length s"
proof -
  assume "re_search_TryGet_Array s"
  then obtain u m v where "s = u @ ustr ''TryGet'' @ m @ ustr ''Array'' @ v"
    unfolding re_search_iff by blast
  then have "length s = length u + 6 + length m + 5 + length v"
    by (simp add: length_TryGet length_Array)
  then show ?thesis by simp
qed

lemma truncate_prefix_absent: "py_find s (ustr ''::'') = -1 \<Longrightarrow> truncate_prefix s = s"
  by (simp add: truncate_prefix_def)

text \<open>
  Claim C3, as the code has it. When \<^verbatim>\<open>::\<close> occurs in the name, the prefix is the
  part of the name before its first occurrence. The script looks in the prefix for the
  last space character (code point 32, the argument of \<^verbatim>\<open>rfind\<close>), not for the
  last whitespace character: when the prefix is \<open>p\<close>, a space, and \<open>q\<close> without a
  space, everything up to and including that space is dropped and the name becomes \<open>q\<close>
  followed by the part from \<^verbatim>\<open>::\<close> on; when the prefix has no space, the name is left
  as it is. The name \<^verbatim>\<open>ReturnType NS::Class::Method(int)\<close> is normalized to
  \<^verbatim>\<open>NS::Class::Method(int)\<close>.
\<close>

theorem truncate_prefix_last_space:
  assumes "first_colon = py_find name (ustr ''::'')" and "first_colon \<noteq> -1"
  shows "(slice_to name first_colon = p @ [32] @ q \<and> 32 \<notin> set q
            \<longrightarrow> truncate_prefix name = q @ slice_from name first_colon)
       \<and> (32 \<notin> set (slice_to name first_colon) \<longrightarrow> truncate_prefix name = name)
       \<and> clean_demangled (ustr ''ReturnType NS::Class::Method(int)'') = ustr ''NS::Class::Method(int)''"
proof (intro conjI impI)
  from assms py_find_range [of name "ustr ''::''"] have nonneg: "0 \<le> first_colon"
    by simp
  {
    assume a: "slice_to name first_colon = p @ [32] @ q \<and> 32 \<notin> set q"
    then have pre: "take (nat first_colon) name = p @ [32] @ q" and q: "32 \<notin> set q"
      using nonneg by (simp_all add: slice_to_def)
    from py_rfind_last [OF q, of p] have last: "py_rfind (p @ [32] @ q) [32] = int (length p)" .
    have "name = take (nat first_colon) name @ drop (nat first_colon) name"
      by simp
    then have name: "name = (p @ [32]) @ q @ drop (nat first_colon) name"
      by (simp only: pre append_assoc)
    have "drop (Suc (length p)) name = drop (length (p @ [32])) ((p @ [32]) @ q @ drop (nat first_colon) name)"
      using name by simp
    also have "\<dots> = q @ drop (nat first_colon) name"
      by (simp only: append_eq_conv_conj [THEN iffD1, OF refl] drop_append length_append) simp
    finally have d: "drop (Suc (length p)) name = q @ drop (nat first_colon) name" .
    have "truncate_prefix name = slice_from name (int (length p) + 1)"
      using assms a last by (simp add: truncate_prefix_def Let_def space_literal)
    also have "\<dots> = drop (Suc (length p)) name"
      by (simp add: slice_from_def nat_add_distrib)
    also note d
    also have "drop (nat first_colon) name = slice_from name first_colon"
      using nonneg by (simp add: slice_from_def)
    finally show "truncate_prefix name = q @ slice_from name first_colon" .
  }
  {
    assume "32 \<notin> set (slice_to name first_colon)"
    then have "py_rfind (slice_to name first_colon) [32] = -1"
      by (rule py_rfind_absent)
    with assms show "truncate_prefix name = name"
      by (simp add: truncate_prefix_def Let_def space_literal)
  }
  show "clean_demangled (ustr ''ReturnType NS::Class::Method(int)'') = ustr ''NS::Class::Method(int)''"
    by (simp add: eval_defs)
qed

text \<open>
  The theorem at \<^verbatim>\<open>int f NS::g\<close>, whose prefix \<^verbatim>\<open>int f NS\<close> has two spaces, and
  at \<^verbatim>\<open>NS::g h\<close>, whose prefix has none.
\<close>

theorem truncate_prefix_last_space_witness:
  "py_find (ustr ''int f NS::g'') (ustr ''::'') = 8
   \<and> slice_to (ustr ''int f NS::g'') 8 = ustr ''int f'' @ [32] @ ustr ''NS''
   \<and> truncate_prefix (ustr ''int f NS::g'') = ustr ''NS'' @ slice_from (ustr ''int f NS::g'') 8
   \<and> truncate_prefix (ustr ''NS::g h'') = ustr ''NS::g h''"
proof -
  have f1: "py_find (ustr ''int f NS::g'') (ustr ''::'') = 8"
    by (simp add: eval_defs)
  have s1: "slice_to (ustr ''int f NS::g'') 8 = ustr ''int f'' @ [32] @ ustr ''NS''"
    by (simp add: eval_defs)
  have q1: "32 \<notin> set (ustr ''NS'')"
    by (simp add: ustr_def)
  have f2: "py_find (ustr ''NS::g h'') (ustr ''::'') = 2"
    by (simp add: eval_defs)
  have s2: "32 \<notin> set (slice_to (ustr ''NS::g h'') 2)"
    by (simp add: eval_defs)
  from truncate_prefix_last_space [of 8 "ustr ''int f NS::g''" "ustr ''int f''" "ustr ''NS''"] f1 s1 q1
  have "truncate_prefix (ustr ''int f NS::g'') = ustr ''NS'' @ slice_from (ustr ''int f NS::g'') 8"
    by simp
  moreover from truncate_prefix_last_space [of 2 "ustr ''NS::g h''"] f2 s2
  have "truncate_prefix (ustr ''NS::g h'') = ustr ''NS::g h''"
    by simp
  ultimately show ?thesis using f1 s1 by simp
qed

text \<open>
  Claim C3 as the specification words it fails on a prefix whose last whitespace
  character is not a space. In \<^verbatim>\<open>a<TAB>NS::X\<close> the first \<^verbatim>\<open>::\<close> is at index 4 and
  the last whitespace character of the prefix is the tab at index 1, so the claim has
  the name cut to \<^verbatim>\<open>NS::X\<close>; the script leaves the name uncut at this step, and the
  normalized name is \<^verbatim>\<open>aNS::X\<close>.
\<close>

theorem truncate_prefix_tab_counterexample:
  "py_find (ustr ''a'' @ [9] @ ustr ''NS::X'') (ustr ''::'') = 4
   \<and> is_space ((ustr ''a'' @ [9] @ ustr ''NS::X'') ! 1)
   \<and> \<not> is_space ((ustr ''a'' @ [9] @ ustr ''NS::X'') ! 2)
   \<and> \<not> is_space ((ustr ''a'' @ [9] @ ustr ''NS::X'') ! 3)
   \<and> truncate_prefix (ustr ''a'' @ [9] @ ustr ''NS::X'') \<noteq> drop 2 (ustr ''a'' @ [9] @ ustr ''NS::X'')
   \<and> clean_demangled (ustr ''a'' @ [9] @ ustr ''NS::X'') = ustr ''aNS::X''"
  by (simp add: eval_defs)

text \<open>
  Claim C2, as the code has it. Normalizing a second time changes nothing exactly when
  the normalized name does not both match \<^verbatim>\<open>TryGet.*Array\<close> and contain an ampersand.
  (When it does both, the second pass puts another \<^verbatim>\<open>[]\<close> before every ampersand.)
\<close>

theorem clean_demangled_idempotent_iff:
  "clean_demangled (clean_demangled s) = clean_demangled s \<longleftrightarrow>
     \<not> (re_search_TryGet_Array (clean_demangled s) \<and> 38 \<in> set (clean_demangled s))"
proof -
  have "\<forall>c\<in>set (clean_demangled s). \<not> is_space c"
    by (simp add: clean_demangled_no_space)
  from clean_demangled_canonical [OF this] show ?thesis
    by (simp add: replace_amp_fixed)
qed

text \<open>The theorem at a name with an ampersand that does not match the pattern.\<close>

theorem clean_demangled_idempotent_iff_witness:
  "clean_demangled (clean_demangled (ustr ''ReturnType NS::Class::Method(int&)''))
     = clean_demangled (ustr ''ReturnType NS::Class::Method(int&)'')"
proof -
  have "\<not> re_search_TryGet_Array (clean_demangled (ustr ''ReturnType NS::Class::Method(int&)''))"
    by (simp add: eval_defs)
  with clean_demangled_idempotent_iff [of "ustr ''ReturnType NS::Class::Method(int&)''"]
  show ?thesis by simp
qed

text \<open>
  Claim C2 as the specification words it fails at \<^verbatim>\<open>bool NS::TryGetValueArray(int&)\<close>:
  one pass gives \<^verbatim>\<open>NS::TryGetValueArray(int[]&)\<close>, a second pass
  \<^verbatim>\<open>NS::TryGetValueArray(int[][]&)\<close>.
\<close>

theorem clean_demangled_idempotent_counterexample:
  "clean_demangled (clean_demangled (ustr ''bool NS::TryGetValueArray(int&)''))
     \<noteq> clean_demangled (ustr ''bool NS::TryGetValueArray(int&)'')"
  by (simp add: eval_defs)

lemma filter_none: "\<forall>c\<in>set t. \<not> P c \<Longrightarrow> filter P t = []"
  by (induction t) simp_all

text \<open>
  Claim C4. For every string, the normalized name contains no whitespace character,
  that is, no character of the class \<^verbatim>\<open>\s\<close> that the last statement removes.
\<close>

theorem clean_demangled_no_whitespace:
  "\<forall>c\<in>set (clean_demangled s). \<not> is_space c"
  by (simp add: clean_demangled_def re_sub_spaces_filter)

text \<open>The theorem at a name with a tab, spaces and a line feed.\<close>

theorem clean_demangled_no_whitespace_witness:
  "clean_demangled ([9] @ ustr ''void  NS:: f ( int )'' @ [10]) = ustr ''NS::f(int)''
   \<and> filter is_space (clean_demangled ([9] @ ustr ''void  NS:: f ( int )'' @ [10])) = []"
proof -
  have "clean_demangled ([9] @ ustr ''void  NS:: f ( int )'' @ [10]) = ustr ''NS::f(int)''"
    by (simp add: eval_defs)
  moreover
  have "filter is_space (clean_demangled ([9] @ ustr ''void  NS:: f ( int )'' @ [10])) = []"
    by (rule filter_none [OF clean_demangled_no_whitespace])
  ultimately show ?thesis by simp
qed

text \<open>
  Claim C7, as the code has it. The pattern is matched against the name left by the
  truncation, and \<^verbatim>\<open>.\<close> does not match a line feed: when that name contains
  \<^verbatim>\<open>TryGet\<close> followed later by \<^verbatim>\<open>Array\<close> with no line feed between the two, the
  normalized name is that name with every \<^verbatim>\<open>&\<close> replaced by \<^verbatim>\<open>[]&\<close>, and then
  stripped of whitespace. The name \<^verbatim>\<open>bool NS::TryGetValueArray(int&)\<close> is normalized
  to \<^verbatim>\<open>NS::TryGetValueArray(int[]&)\<close>.
\<close>

theorem mark_array_after_truncation:
  assumes "truncate_prefix name = u @ ustr ''TryGet'' @ m @ ustr ''Array'' @ v" and "10 \<notin> set m"
  shows "clean_demangled name =
           filter (\<lambda>c. \<not> is_space c)
             (concat (map (\<lambda>c. if c = 38 then ustr ''[]&'' else [c]) (truncate_prefix name)))
         \<and> clean_demangled (ustr ''bool NS::TryGetValueArray(int&)'') = ustr ''NS::TryGetValueArray(int[]&)''"
proof
  from assms have "re_search_TryGet_Array (truncate_prefix name)"
    unfolding re_search_iff by blast
  then show "clean_demangled name =
           filter (\<lambda>c. \<not> is_space c)
             (concat (map (\<lambda>c. if c = 38 then ustr ''[]&'' else [c]) (truncate_prefix name)))"
    by (simp add: clean_demangled_def mark_array_def re_sub_spaces_filter replace_amp_concat)
  show "clean_demangled (ustr ''bool NS::TryGetValueArray(int&)'') = ustr ''NS::TryGetValueArray(int[]&)''"
    by (simp add: eval_defs)
qed

text \<open>
  The theorem at \<^verbatim>\<open>int f::TryGet Array(a&, b&)\<close>, where a space stands between
  the two words and both ampersands are marked.
\<close>

theorem mark_array_after_truncation_witness:
  "truncate_prefix (ustr ''int f::TryGet Array(a&, b&)'') = ustr ''f::'' @ ustr ''TryGet'' @ [32] @ ustr ''Array'' @ ustr ''(a&, b&)''
   \<and> clean_demangled (ustr ''int f::TryGet Array(a&, b&)'') = ustr ''f::TryGetArray(a[]&,b[]&)''"
proof -
  have t: "truncate_prefix (ustr ''int f::TryGet Array(a&, b&)'') = ustr ''f::'' @ ustr ''TryGet'' @ [32] @ ustr ''Array'' @ ustr ''(a&, b&)''"
    by (simp add: eval_defs)
  have m: "10 \<notin> set [32::nat]" by simp
  from mark_array_after_truncation [OF t m]
  have "clean_demangled (ustr ''int f::TryGet Array(a&, b&)'') =
           filter (\<lambda>c. \<not> is_space c)
             (concat (map (\<lambda>c. if c = 38 then ustr ''[]&'' else [c]) (truncate_prefix (ustr ''int f::TryGet Array(a&, b&)''))))"
    by (rule conjunct1)
  also have "\<dots> = ustr ''f::TryGetArray(a[]&,b[]&)''"
    by (simp add: eval_defs)
  finally show ?thesis using t by simp
qed

text \<open>
  Claim C7 as the specification words it fails when a line feed stands between the two
  words: the name \<^verbatim>\<open>TryGet<LF>Array(int&)\<close> contains \<^verbatim>\<open>TryGet\<close> followed later by
  \<^verbatim>\<open>Array\<close>, the truncation leaves it whole, and its ampersand is not marked.
\<close>

theorem mark_array_line_feed_counterexample:
  "truncate_prefix (ustr ''TryGet'' @ [10] @ ustr ''Array'' @ ustr ''(int&)'')
     = ustr ''TryGet'' @ [10] @ ustr ''Array'' @ ustr ''(int&)''
   \<and> clean_demangled (ustr ''TryGet'' @ [10] @ ustr ''Array'' @ ustr ''(int&)'') = ustr ''TryGetArray(int&)''
   \<and> clean_demangled (ustr ''TryGet'' @ [10] @ ustr ''Array'' @ ustr ''(int&)'') \<noteq> ustr ''TryGetArray(int[]&)''"
  by (simp add: eval_defs)

text \<open>
  Claim C9. The normalizer is a total function of strings: it is built from
  \<^verbatim>\<open>find\<close>, \<^verbatim>\<open>rfind\<close>, slices, \<^verbatim>\<open>re.search\<close>, \<^verbatim>\<open>replace\<close> and \<^verbatim>\<open>re.sub\<close>,
  none of which raises on a string, so that it has no raising branch. The index
  \<^verbatim>\<open>find\<close> returns for \<^verbatim>\<open>::\<close> is the sentinel \<open>-1\<close>, which the script tests for,
  or the index of a position with two characters left; the index \<^verbatim>\<open>rfind\<close> returns
  for the space is the sentinel or the index of a character; so both slices are taken at
  indices inside the string. The empty string is normalized to the empty string, and a
  string shorter than \<^verbatim>\<open>::\<close> (hence shorter than every token searched for but
  \<^verbatim>\<open>&\<close>, which alone is left as it is) only loses its whitespace.
\<close>

theorem clean_demangled_total:
  "(py_find s (ustr ''::'') = -1
      \<or> (0 \<le> py_find s (ustr ''::'') \<and> py_find s (ustr ''::'') + 2 \<le> int (length s)))
   \<and> (py_rfind p (ustr '' '') = -1
      \<or> (0 \<le> py_rfind p (ustr '' '') \<and> py_rfind p (ustr '' '') < int (length p)))
   \<and> clean_demangled [] = []
   \<and> (length s < 2 \<longrightarrow> clean_demangled s = filter (\<lambda>c. \<not> is_space c) s)"
proof (intro conjI impI)
  show "py_find s (ustr ''::'') = -1
      \<or> (0 \<le> py_find s (ustr ''::'') \<and> py_find s (ustr ''::'') + 2 \<le> int (length s))"
    using py_find_range [of s "ustr ''::''"] by (simp add: length_colons)
  show "py_rfind p (ustr '' '') = -1
      \<or> (0 \<le> py_rfind p (ustr '' '') \<and> py_rfind p (ustr '' '') < int (length p))"
    using py_rfind_range [of p 32] by (simp add: space_literal)
  show "clean_demangled [] = []"
    by (simp add: eval_defs)
  assume short: "length s < 2"
  with py_find_range [of s "ustr ''::''"] have "py_find s (ustr ''::'') = -1"
    unfolding length_colons by linarith
  then have t: "truncate_prefix s = s" by (rule truncate_prefix_absent)
  from short re_search_length [of s] have "\<not> re_search_TryGet_Array s" by auto
  with t show "clean_demangled s = filter (\<lambda>c. \<not> is_space c) s"
    by (simp add: clean_demangled_def mark_array_def re_sub_spaces_filter)
qed

text \<open>The theorem at the one-character strings \<^verbatim>\<open>:\<close>, \<^verbatim>\<open>&\<close> and the space.\<close>

theorem clean_demangled_total_witness:
  "clean_demangled (ustr '':'') = ustr '':'' \<and> clean_demangled (ustr ''&'') = ustr ''&''
   \<and> clean_demangled (ustr '' '') = []"
proof -
  have "length (ustr '':'') < 2" "length (ustr ''&'') < 2" "length (ustr '' '') < 2"
    by (simp_all add: ustr_def)
  with clean_demangled_total [of "ustr '':''"] clean_demangled_total [of "ustr ''&''"]
    clean_demangled_total [of "ustr '' ''"]
  have "clean_demangled (ustr '':'') = filter (\<lambda>c. \<not> is_space c) (ustr '':'')"
    "clean_demangled (ustr ''&'') = filter (\<lambda>c. \<not> is_space c) (ustr ''&'')"
    "clean_demangled (ustr '' '') = filter (\<lambda>c. \<not> is_space c) (ustr '' '')"
    by blast+
  then show ?thesis by (simp add: ustr_def is_space_def)
qed

section \<open>The loop: claims C1, C5, C6, C8 and C10\<close>

lemmas filter_defs = in_skipped_namespace_def has_skipped_marker_def skipped_namespaces_def
  skipped_markers_def contains_def is_application_code_def

lemma scenario_A:
  "process_function scenario_db 4096 =
     Inr (Some (ustr ''Game::A(void)'',
       \<lparr>CallCount = 2, Usages = [ustr ''Game::B(void)'', ustr ''System::Foo(void)'']\<rparr>))"
  by (simp add: process_function_def callers_of_def scenario_db_def eval_defs filter_defs)

lemma scenario_B:
  "process_function scenario_db 8192 =
     Inr (Some (ustr ''Game::B(void)'', \<lparr>CallCount = 0, Usages = []\<rparr>))"
  by (simp add: process_function_def callers_of_def scenario_db_def eval_defs filter_defs)

lemma scenario_C: "process_function scenario_db 12288 = Inr None"
  by (simp add: process_function_def callers_of_def scenario_db_def eval_defs filter_defs)

lemma scenario_bad: "process_function scenario_db 16384 = Inl (Exception (ustr ''bad name''))"
  by (simp add: process_function_def callers_of_def scenario_db_def eval_defs filter_defs)


lemma process_function_record:
  assumes "process_function db func_ea = Inr (Some (name, r))"
  shows "\<exists>callers. callers_of db func_ea = Inr callers
           \<and> r = \<lparr>CallCount = int (length callers), Usages = sort callers\<rparr>"
  using assms
  by (simp add: process_function_def Let_def split: sum.splits if_splits option.splits)


lemma step_entry:
  "xref_data (step db st func_ea) name = Some r \<Longrightarrow>
     xref_data st name = Some r \<or> process_function db func_ea = Inr (Some (name, r))"
  by (auto simp: step_def split: sum.splits option.splits if_splits exn.splits)

lemma main_loop_entry:
  "xref_data (main_loop db fs st) name = Some r \<Longrightarrow>
     xref_data st name = Some r \<or> (\<exists>ea\<in>set fs. process_function db ea = Inr (Some (name, r)))"
proof (induction fs arbitrary: st)
  case Nil
  then show ?case by simp
next
  case (Cons ea fs)
  have "xref_data (step db st ea) name = Some r
        \<or> (\<exists>ea\<in>set fs. process_function db ea = Inr (Some (name, r)))"
  proof (cases "uncaught (step db st ea) = None")
    case True
    with Cons.prems have "xref_data (main_loop db fs (step db st ea)) name = Some r"
      by (simp add: Let_def)
    from Cons.IH [OF this] show ?thesis .
  next
    case False
    with Cons.prems show ?thesis by (simp add: Let_def)
  qed
  then show ?case
  proof
    assume "xref_data (step db st ea) name = Some r"
    from step_entry [OF this] show ?thesis by auto
  next
    assume "\<exists>ea\<in>set fs. process_function db ea = Inr (Some (name, r))"
    then show ?thesis by auto
  qed
qed

lemma run_entry:
  "xref_data (run db) name = Some r \<Longrightarrow>
     \<exists>ea\<in>set (Functions db). process_function db ea = Inr (Some (name, r))"
  using main_loop_entry [of db "Functions db"
      "\<lparr>xref_data = Map.empty, printed = [], uncaught = None\<rparr>" name r]
  by (simp add: run_def)

lemma main_loop_go:
  "uncaught (step db st a) = None \<Longrightarrow> main_loop db (a # fs) st = main_loop db fs (step db st a)"
  by (simp add: Let_def)

lemma main_loop_stop:
  "uncaught (step db st a) \<noteq> None \<Longrightarrow> main_loop db (a # fs) st = step db st a"
  by (auto simp: Let_def)

lemma step_uncaught:
  "\<forall>m. process_function db ea \<noteq> Inl (BaseException m) \<Longrightarrow>
     uncaught (step db st ea) = uncaught st"
  by (auto simp: step_def split: sum.splits option.splits exn.splits)

lemma main_loop_step:
  assumes "\<forall>m. process_function db ea \<noteq> Inl (BaseException m)" and "uncaught st = None"
  shows "main_loop db (ea # fs) st = main_loop db fs (step db st ea)"
  using assms by (simp add: Let_def step_uncaught)

lemma main_loop_uncaught:
  "\<forall>ea\<in>set fs. \<forall>m. process_function db ea \<noteq> Inl (BaseException m) \<Longrightarrow>
     uncaught st = None \<Longrightarrow> uncaught (main_loop db fs st) = None"
proof (induction fs arbitrary: st)
  case Nil
  then show ?case by simp
next
  case (Cons a fs)
  from Cons.prems have a: "\<forall>m. process_function db a \<noteq> Inl (BaseException m)"
    and fs: "\<forall>ea\<in>set fs. \<forall>m. process_function db ea \<noteq> Inl (BaseException m)" by simp_all
  from a Cons.prems(2) have u: "uncaught (step db st a) = None"
    by (simp add: step_uncaught)
  from Cons.IH [OF fs u] show ?case
    by (simp only: main_loop_step [OF a Cons.prems(2)])
qed




lemma step_dom: "xref_data st name \<noteq> None \<Longrightarrow> xref_data (step db st ea) name \<noteq> None"
  by (auto simp: step_def split: sum.splits option.splits exn.splits)

lemma main_loop_dom:
  "xref_data st name \<noteq> None \<Longrightarrow> xref_data (main_loop db fs st) name \<noteq> None"
proof (induction fs arbitrary: st)
  case Nil
  then show ?case by simp
next
  case (Cons a fs)
  from step_dom [OF Cons.prems] have s: "xref_data (step db st a) name \<noteq> None" .
  show ?case
  proof (cases "uncaught (step db st a) = None")
    case True
    from Cons.IH [OF s] show ?thesis by (simp only: main_loop_go [OF True] simp_thms)
  next
    case False
    from s show ?thesis by (simp only: main_loop_stop [OF False] simp_thms)
  qed
qed

lemma step_written:
  "process_function db ea = Inr (Some (name, r)) \<Longrightarrow> xref_data (step db st ea) name = Some r"
  by (simp add: step_def)

lemma main_loop_written:
  "\<forall>ea\<in>set fs. \<forall>m. process_function db ea \<noteq> Inl (BaseException m) \<Longrightarrow>
     uncaught st = None \<Longrightarrow>
     ea \<in> set fs \<Longrightarrow> process_function db ea = Inr (Some (name, r)) \<Longrightarrow>
     xref_data (main_loop db fs st) name \<noteq> None"
proof (induction fs arbitrary: st)
  case Nil
  then show ?case by simp
next
  case (Cons a fs)
  from Cons.prems(1) have a: "\<forall>m. process_function db a \<noteq> Inl (BaseException m)"
    and fs: "\<forall>ea\<in>set fs. \<forall>m. process_function db ea \<noteq> Inl (BaseException m)" by simp_all
  from a Cons.prems(2) have u: "uncaught (step db st a) = None"
    by (simp add: step_uncaught)
  note unfold = main_loop_step [OF a Cons.prems(2)]
  show ?case
  proof (cases "ea = a")
    case True
    with Cons.prems(4) have "xref_data (step db st a) name \<noteq> None"
      by (simp add: step_written)
    from main_loop_dom [OF this] show ?thesis by (simp only: unfold simp_thms)
  next
    case False
    with Cons.prems(3) have "ea \<in> set fs" by simp
    from Cons.IH [OF fs u this Cons.prems(4)] show ?thesis by (simp only: unfold simp_thms)
  qed
qed

lemma step_printed_mono: "x \<in> set (printed st) \<Longrightarrow> x \<in> set (printed (step db st ea))"
  by (auto simp: step_def split: sum.splits option.splits exn.splits)

lemma main_loop_printed_mono:
  "x \<in> set (printed st) \<Longrightarrow> x \<in> set (printed (main_loop db fs st))"
  by (induction fs arbitrary: st) (simp_all add: step_printed_mono Let_def)

lemma step_raised:
  "process_function db ea = Inl (Exception m) \<Longrightarrow>
     step db st ea = st\<lparr>printed := printed st @ [(ea, Exception m)]\<rparr>"
  by (simp add: step_def)

lemma main_loop_raised:
  "\<forall>ea\<in>set fs. \<forall>m. process_function db ea \<noteq> Inl (BaseException m) \<Longrightarrow>
     uncaught st = None \<Longrightarrow>
     ea \<in> set fs \<Longrightarrow> process_function db ea = Inl (Exception m) \<Longrightarrow>
     (ea, Exception m) \<in> set (printed (main_loop db fs st))"
proof (induction fs arbitrary: st)
  case Nil
  then show ?case by simp
next
  case (Cons a fs)
  from Cons.prems(1) have a: "\<forall>m. process_function db a \<noteq> Inl (BaseException m)"
    and fs: "\<forall>ea\<in>set fs. \<forall>m. process_function db ea \<noteq> Inl (BaseException m)" by simp_all
  from a Cons.prems(2) have u: "uncaught (step db st a) = None"
    by (simp add: step_uncaught)
  note unfold = main_loop_step [OF a Cons.prems(2)]
  show ?case
  proof (cases "ea = a")
    case True
    with Cons.prems(4) have "(ea, Exception m) \<in> set (printed (step db st a))"
      by (simp add: step_raised)
    from main_loop_printed_mono [OF this] show ?thesis by (simp only: unfold simp_thms)
  next
    case False
    with Cons.prems(3) have "ea \<in> set fs" by simp
    from Cons.IH [OF fs u this Cons.prems(4)] show ?thesis by (simp only: unfold simp_thms)
  qed
qed

lemma step_xref_data_cong:
  "xref_data st = xref_data st' \<Longrightarrow> xref_data (step db st ea) = xref_data (step db st' ea)"
  by (auto simp: step_def split: sum.splits option.splits exn.splits)

lemma step_raised_xref_data:
  "isl (process_function db ea) \<Longrightarrow> xref_data (step db st ea) = xref_data st"
  by (auto simp: step_def isl_def split: exn.splits)

lemma main_loop_without_raising:
  "\<forall>ea\<in>set fs. \<forall>m. process_function db ea \<noteq> Inl (BaseException m) \<Longrightarrow>
     uncaught st = None \<Longrightarrow> uncaught st' = None \<Longrightarrow> xref_data st = xref_data st' \<Longrightarrow>
     xref_data (main_loop db fs st)
       = xref_data (main_loop db (filter (\<lambda>ea. \<not> isl (process_function db ea)) fs) st')"
proof (induction fs arbitrary: st st')
  case Nil
  then show ?case by simp
next
  case (Cons a fs)
  from Cons.prems(1) have a: "\<forall>m. process_function db a \<noteq> Inl (BaseException m)"
    and fs: "\<forall>ea\<in>set fs. \<forall>m. process_function db ea \<noteq> Inl (BaseException m)" by simp_all
  from a Cons.prems(2) have u: "uncaught (step db st a) = None"
    by (simp add: step_uncaught)
  from a Cons.prems(3) have u': "uncaught (step db st' a) = None"
    by (simp add: step_uncaught)
  note unfold = main_loop_step [OF a Cons.prems(2)]
  show ?case
  proof (cases "isl (process_function db a)")
    case True
    with Cons.prems(4) have "xref_data (step db st a) = xref_data st'"
      by (simp add: step_raised_xref_data)
    from Cons.IH [OF fs u Cons.prems(3) this] True show ?thesis
      by (simp only: unfold) simp
  next
    case False
    from Cons.prems(4) have "xref_data (step db st a) = xref_data (step db st' a)"
      by (rule step_xref_data_cong)
    from Cons.IH [OF fs u u' this] False u' show ?thesis
      by (simp only: unfold) (simp add: Let_def)
  qed
qed





lemma scenario_functions: "Functions scenario_db = [4096, 16384, 8192, 12288]"
  by (simp add: scenario_db_def)





lemma scenario_caught:
  "\<forall>ea\<in>set (Functions scenario_db). \<forall>m. process_function scenario_db ea \<noteq> Inl (BaseException m)"
  by (simp add: scenario_functions scenario_A scenario_B scenario_C scenario_bad)



lemma collision_functions: "Functions collision_db = [1, 2]"
  by (simp add: collision_db_def)

lemma collision_first:
  "process_function collision_db 1 =
     Inr (Some (ustr ''Game::F()'', \<lparr>CallCount = 0, Usages = []\<rparr>))"
  by (simp add: process_function_def callers_of_def collision_db_def eval_defs filter_defs)


lemma collision_second_callers:
  "callers_of collision_db 2 = Inr [ustr ''Game::G()'', ustr ''Game::E()'', ustr ''Game::G()'']"
  by (simp add: callers_of_def collision_db_def eval_defs)

lemma collision_second:
  "process_function collision_db 2 =
     Inr (Some (ustr ''Game::F()'',
       \<lparr>CallCount = 3, Usages = [ustr ''Game::E()'', ustr ''Game::G()'', ustr ''Game::G()'']\<rparr>))"
  by (simp add: process_function_def callers_of_def collision_db_def eval_defs filter_defs)

lemma collision_run_F:
  "xref_data (run collision_db) (ustr ''Game::F()'') =
     Some \<lparr>CallCount = 3, Usages = [ustr ''Game::E()'', ustr ''Game::G()'', ustr ''Game::G()'']\<rparr>"
  by (simp add: run_def collision_functions step_def collision_first collision_second)

lemma interrupted_functions: "Functions interrupted_db = [1, 2]"
  by (simp add: interrupted_db_def)

lemma interrupted_first:
  "process_function interrupted_db 1 = Inl (BaseException (ustr ''KeyboardInterrupt''))"
  by (simp add: process_function_def interrupted_db_def)

lemma interrupted_second:
  "process_function interrupted_db 2 =
     Inr (Some (ustr ''Game::H()'', \<lparr>CallCount = 0, Usages = []\<rparr>))"
  by (simp add: process_function_def callers_of_def interrupted_db_def eval_defs filter_defs)

lemma interrupted_run:
  "run interrupted_db =
     \<lparr>xref_data = Map.empty, printed = [],
      uncaught = Some (BaseException (ustr ''KeyboardInterrupt''))\<rparr>"
  by (simp add: run_def interrupted_functions step_def interrupted_first)

text \<open>
  Claim C5. In every record of the final \<^verbatim>\<open>xref_data\<close>, \<^verbatim>\<open>CallCount\<close> is the length of
  \<^verbatim>\<open>Usages\<close>.
\<close>

theorem call_count_is_length:
  "xref_data (run db) name = Some r \<Longrightarrow> CallCount r = int (length (Usages r))"
proof -
  assume "xref_data (run db) name = Some r"
  from run_entry [OF this] obtain ea where "process_function db ea = Inr (Some (name, r))"
    by blast
  from process_function_record [OF this] obtain callers
    where "r = \<lparr>CallCount = int (length callers), Usages = sort callers\<rparr>" by blast
  then show ?thesis by simp
qed

text \<open>The theorem at the record of \<^verbatim>\<open>Game::F()\<close>, which has three callers.\<close>

theorem call_count_is_length_witness:
  "xref_data (run collision_db) (ustr ''Game::F()'') =
     Some \<lparr>CallCount = 3, Usages = [ustr ''Game::E()'', ustr ''Game::G()'', ustr ''Game::G()'']\<rparr>
   \<and> CallCount \<lparr>CallCount = 3, Usages = [ustr ''Game::E()'', ustr ''Game::G()'', ustr ''Game::G()'']\<rparr>
       = int (length (Usages
           \<lparr>CallCount = 3, Usages = [ustr ''Game::E()'', ustr ''Game::G()'', ustr ''Game::G()'']\<rparr>))"
  using collision_run_F call_count_is_length [OF collision_run_F] by (rule conjI)

text \<open>
  Claim C6. In every record of the final \<^verbatim>\<open>xref_data\<close>, \<^verbatim>\<open>Usages\<close> is in
  non-decreasing lexicographic order, and it is a rearrangement of the callers collected
  for the function that wrote the record: a name collected twice is listed twice.
\<close>

theorem usages_sorted_with_duplicates:
  assumes "xref_data (run db) name = Some r"
  shows "sorted (Usages r)
         \<and> (\<exists>func_ea\<in>set (Functions db). \<exists>callers.
               process_function db func_ea = Inr (Some (name, r))
               \<and> callers_of db func_ea = Inr callers
               \<and> mset (Usages r) = mset callers)"
proof -
  from run_entry [OF assms] obtain ea where ea: "ea \<in> set (Functions db)"
    and p: "process_function db ea = Inr (Some (name, r))" by blast
  from process_function_record [OF p] obtain callers
    where c: "callers_of db ea = Inr callers"
      and r: "r = \<lparr>CallCount = int (length callers), Usages = sort callers\<rparr>" by blast
  from r have "sorted (Usages r)" and "mset (Usages r) = mset callers" by simp_all
  with ea p c show ?thesis by blast
qed

text \<open>
  The theorem at the record of \<^verbatim>\<open>Game::F()\<close>: the callers were collected as
  \<open>G\<close>, \<open>E\<close>, \<open>G\<close> and are listed as \<open>E\<close>, \<open>G\<close>, \<open>G\<close>.
\<close>

theorem usages_sorted_with_duplicates_witness:
  "xref_data (run collision_db) (ustr ''Game::F()'') =
     Some \<lparr>CallCount = 3, Usages = [ustr ''Game::E()'', ustr ''Game::G()'', ustr ''Game::G()'']\<rparr>
   \<and> callers_of collision_db 2 = Inr [ustr ''Game::G()'', ustr ''Game::E()'', ustr ''Game::G()'']
   \<and> sorted [ustr ''Game::E()'', ustr ''Game::G()'', ustr ''Game::G()'']"
proof -
  from usages_sorted_with_duplicates [OF collision_run_F]
  have "sorted [ustr ''Game::E()'', ustr ''Game::G()'', ustr ''Game::G()'']"
    by (simp only: call_record.simps)
  with collision_run_F collision_second_callers show ?thesis by (intro conjI)
qed




text \<open>
  Claim C8, as the code has it. The handler is \<^verbatim>\<open>except Exception\<close>. When the body of
  the loop raises an instance of \<^verbatim>\<open>Exception\<close> for a function, the handler prints it
  with the address of the function and the loop goes on with the next function, the
  dictionary unchanged; any other raise passes the handler and ends the run there. So
  in a run in which nothing but instances of \<^verbatim>\<open>Exception\<close> is raised, the run is not
  ended, every exception raised is printed with its address, every function that reaches
  the assignment has its name in the final \<^verbatim>\<open>xref_data\<close>, and the final \<^verbatim>\<open>xref_data\<close>
  is the one of a run over the same functions without those that raise.
\<close>

theorem failure_isolation:
  "(process_function db func_ea = Inl (Exception m) \<and> uncaught st = None \<longrightarrow>
      main_loop db (func_ea # rest) st
        = main_loop db rest (st\<lparr>printed := printed st @ [(func_ea, Exception m)]\<rparr>))
   \<and> (process_function db func_ea = Inl (BaseException m) \<and> uncaught st = None \<longrightarrow>
      main_loop db (func_ea # rest) st = st\<lparr>uncaught := Some (BaseException m)\<rparr>)
   \<and> ((\<forall>ea\<in>set (Functions db). \<forall>m'. process_function db ea \<noteq> Inl (BaseException m')) \<longrightarrow>
        uncaught (run db) = None
        \<and> (\<forall>ea\<in>set (Functions db). \<forall>m'. process_function db ea = Inl (Exception m')
              \<longrightarrow> (ea, Exception m') \<in> set (printed (run db)))
        \<and> (\<forall>ea\<in>set (Functions db). \<forall>name r. process_function db ea = Inr (Some (name, r))
              \<longrightarrow> name \<in> dom (xref_data (run db)))
        \<and> xref_data (run db)
            = xref_data (main_loop db
                (filter (\<lambda>ea. \<not> isl (process_function db ea)) (Functions db))
                \<lparr>xref_data = Map.empty, printed = [], uncaught = None\<rparr>))"
proof (intro conjI impI ballI allI)
  assume "process_function db func_ea = Inl (Exception m) \<and> uncaught st = None"
  then show "main_loop db (func_ea # rest) st
        = main_loop db rest (st\<lparr>printed := printed st @ [(func_ea, Exception m)]\<rparr>)"
    by (simp add: step_raised Let_def)
next
  assume "process_function db func_ea = Inl (BaseException m) \<and> uncaught st = None"
  then show "main_loop db (func_ea # rest) st = st\<lparr>uncaught := Some (BaseException m)\<rparr>"
    by (simp add: step_def Let_def)
next
  assume caught: "\<forall>ea\<in>set (Functions db). \<forall>m'. process_function db ea \<noteq> Inl (BaseException m')"
  have init: "uncaught \<lparr>xref_data = Map.empty, printed = [], uncaught = None\<rparr> = None"
    by simp
  show "uncaught (run db) = None"
    unfolding run_def by (rule main_loop_uncaught [OF caught init])
  {
    fix ea m'
    assume "ea \<in> set (Functions db)" and "process_function db ea = Inl (Exception m')"
    then show "(ea, Exception m') \<in> set (printed (run db))"
      unfolding run_def by (rule main_loop_raised [OF caught init])
  }
  {
    fix ea name r
    assume "ea \<in> set (Functions db)" and "process_function db ea = Inr (Some (name, r))"
    then have "xref_data (run db) name \<noteq> None"
      unfolding run_def by (rule main_loop_written [OF caught init])
    then show "name \<in> dom (xref_data (run db))"
      by (simp add: dom_def)
  }
  show "xref_data (run db)
            = xref_data (main_loop db
                (filter (\<lambda>ea. \<not> isl (process_function db ea)) (Functions db))
                \<lparr>xref_data = Map.empty, printed = [], uncaught = None\<rparr>)"
    unfolding run_def by (rule main_loop_without_raising [OF caught init init refl])
qed

text \<open>
  The theorem at the scenario, where \<^verbatim>\<open>get_name\<close> raises an exception for the second
  function enumerated and nothing else is raised: the exception is printed, \<open>A\<close> before
  it and \<open>B\<close> after it are recorded.
\<close>

theorem failure_isolation_witness:
  "process_function scenario_db 16384 = Inl (Exception (ustr ''bad name''))
   \<and> uncaught (run scenario_db) = None
   \<and> (16384, Exception (ustr ''bad name'')) \<in> set (printed (run scenario_db))
   \<and> ustr ''Game::A(void)'' \<in> dom (xref_data (run scenario_db))
   \<and> ustr ''Game::B(void)'' \<in> dom (xref_data (run scenario_db))"
proof -
  have m: "4096 \<in> set (Functions scenario_db)" "16384 \<in> set (Functions scenario_db)"
    "8192 \<in> set (Functions scenario_db)"
    by (simp_all add: scenario_functions)
  note iso = failure_isolation [of scenario_db 0 "[]" "\<lparr>xref_data = Map.empty, printed = [], uncaught = None\<rparr>" "[]"]
  from iso scenario_caught have "uncaught (run scenario_db) = None"
    by blast
  moreover from iso scenario_caught m(2) scenario_bad
  have "(16384, Exception (ustr ''bad name'')) \<in> set (printed (run scenario_db))"
    by blast
  moreover from iso scenario_caught m(1) scenario_A
  have "ustr ''Game::A(void)'' \<in> dom (xref_data (run scenario_db))"
    by blast
  moreover from iso scenario_caught m(3) scenario_B
  have "ustr ''Game::B(void)'' \<in> dom (xref_data (run scenario_db))"
    by blast
  ultimately show ?thesis using scenario_bad by (intro conjI)
qed

text \<open>
  Claim C8 as the specification words it fails for a raise that is not an instance of
  \<^verbatim>\<open>Exception\<close>: when the run is interrupted while the first function is read, nothing
  is printed, the run ends, and the second function, which would have been recorded, is
  not in \<^verbatim>\<open>xref_data\<close>.
\<close>

theorem failure_isolation_interrupt_counterexample:
  "process_function interrupted_db 1 = Inl (BaseException (ustr ''KeyboardInterrupt''))
   \<and> process_function interrupted_db 2
       = Inr (Some (ustr ''Game::H()'', \<lparr>CallCount = 0, Usages = []\<rparr>))
   \<and> uncaught (run interrupted_db) = Some (BaseException (ustr ''KeyboardInterrupt''))
   \<and> printed (run interrupted_db) = []
   \<and> xref_data (run interrupted_db) (ustr ''Game::H()'') = None"
  by (simp add: interrupted_first interrupted_second interrupted_run)




end
